theory Spec2Isabelle
  imports Main "HOL-Library.Finite_Map" "HOL-Library.Char_ord" "HOL-Library.List_Lexorder"
    "HOL-Library.Sublist"
begin

section \<open>The raw typed values of the go-cty library\<close>

text \<open>
  Package \<^verbatim>\<open>eval\<close> wraps values of the external library go-cty, which is not among
  the sources. The part of its interface that the package calls is modelled here, after
  the behaviour of the library: \<^verbatim>\<open>Type\<close>, \<^verbatim>\<open>IsObjectType\<close>, \<^verbatim>\<open>Mark\<close>, \<^verbatim>\<open>Unmark\<close>,
  \<^verbatim>\<open>AsValueMap\<close> (with \<^verbatim>\<open>LengthInt\<close>, which it calls) and \<^verbatim>\<open>ObjectVal\<close>.

  A \<^verbatim>\<open>cty.Value\<close> has a type and is known, null or unknown. It carries a set of marks,
  empty for an unmarked value. A mark is any comparable Go value: the marks this
  package attaches are \<^verbatim>\<open>project.Path\<close> values, marks of any other Go type (attached
  by other code before the value arrives here) are kept apart from them.
\<close>

type_synonym Path = string

datatype mark = PathMark Path | OtherMark string

datatype cty_Type = cty_String | cty_Number | cty_Bool | cty_DynamicPseudoType
  | cty_Tuple "cty_Type list" | cty_Object "(string, cty_Type) fmap"

datatype cty_Value =
    StringVal (marks: "mark set") string
  | NumberIntVal (marks: "mark set") int
  | BoolVal (marks: "mark set") bool
  | TupleVal (marks: "mark set") "cty_Value list"
  | ObjectVal (marks: "mark set") "(string, cty_Value) fmap"
  | NullVal (marks: "mark set") cty_Type
  | UnknownVal (marks: "mark set") cty_Type

primrec Type :: "cty_Value \<Rightarrow> cty_Type" where
  "Type (StringVal m s) = cty_String"
| "Type (NumberIntVal m n) = cty_Number"
| "Type (BoolVal m b) = cty_Bool"
| "Type (TupleVal m vs) = cty_Tuple (map Type vs)"
| "Type (ObjectVal m attrs) = cty_Object (fmmap Type attrs)"
| "Type (NullVal m t) = t"
| "Type (UnknownVal m t) = t"

fun IsObjectType :: "cty_Type \<Rightarrow> bool" where
  "IsObjectType (cty_Object atys) = True"
| "IsObjectType t = False"

fun IsKnown :: "cty_Value \<Rightarrow> bool" where
  "IsKnown (UnknownVal m t) = False"
| "IsKnown v = True"

fun IsNull :: "cty_Value \<Rightarrow> bool" where
  "IsNull (NullVal m t) = True"
| "IsNull v = False"

text \<open>\<^verbatim>\<open>WithMarks\<close> replaces the mark set and keeps type and contents.\<close>

primrec WithMarks :: "mark set \<Rightarrow> cty_Value \<Rightarrow> cty_Value" where
  "WithMarks ms (StringVal m s) = StringVal ms s"
| "WithMarks ms (NumberIntVal m n) = NumberIntVal ms n"
| "WithMarks ms (BoolVal m b) = BoolVal ms b"
| "WithMarks ms (TupleVal m vs) = TupleVal ms vs"
| "WithMarks ms (ObjectVal m attrs) = ObjectVal ms attrs"
| "WithMarks ms (NullVal m t) = NullVal ms t"
| "WithMarks ms (UnknownVal m t) = UnknownVal ms t"

text \<open>
  \<^verbatim>\<open>val.Mark(m)\<close> adds one mark to the marks the value already has. \<^verbatim>\<open>val.Unmark()\<close>
  returns the value without any of its own marks, together with the marks removed;
  marks inside an attribute or element stay where they are.
\<close>

definition Mark :: "cty_Value \<Rightarrow> mark \<Rightarrow> cty_Value" where
  "Mark val m = WithMarks (insert m (marks val)) val"

definition Unmark :: "cty_Value \<Rightarrow> cty_Value \<times> mark set" where
  "Unmark val = (WithMarks {} val, marks val)"

definition IsMarked :: "cty_Value \<Rightarrow> bool" where
  "IsMarked val = (marks val \<noteq> {})"

text \<open>
  A panic of the Go runtime, of go-cty or of the package itself ends the call without a
  result: the model returns it on the left of a sum.
\<close>

datatype Range = Range (Filename: string) (StartByte: nat) (EndByte: nat)

datatype Diagnostic = Diagnostic (Detail: string) (Subject: "Range option")

type_synonym Kind = string

datatype error =
    Error (Kind: Kind) (Description: string) (FileRange: "Range option")
  | StdError string
  | ListError "error list"
  | Diagnostics "Diagnostic list"

datatype panic = IndexOutOfRange | CtyPanic | ErrorPanic error

text \<open>
  \<^verbatim>\<open>LengthInt\<close> panics on a marked value. For a tuple or an object it is the number of
  elements or attributes of the type, also when the value is null or unknown. The
  model has no list, set or map values, so every other value is not a collection, and
  \<^verbatim>\<open>LengthInt\<close> panics there.
\<close>

definition LengthInt :: "cty_Value \<Rightarrow> panic + nat" where
  "LengthInt val =
     (if IsMarked val then Inl CtyPanic
      else case Type val of
             cty_Tuple tys \<Rightarrow> Inr (length tys)
           | cty_Object atys \<Rightarrow> Inr (fcard (fmdom atys))
           | _ \<Rightarrow> Inl CtyPanic)"

text \<open>
  \<^verbatim>\<open>AsValueMap\<close> panics on a marked value, returns the nil map when \<^verbatim>\<open>LengthInt\<close> is 0,
  and otherwise iterates over the elements, which panics on an unknown or a null
  value; the element keys of a tuple are numbers, on which \<^verbatim>\<open>AsString\<close> panics.
\<close>

definition cty_AsValueMap :: "cty_Value \<Rightarrow> panic + (string, cty_Value) fmap" where
  "cty_AsValueMap val =
     (if IsMarked val then Inl CtyPanic
      else case LengthInt val of
             Inl p \<Rightarrow> Inl p
           | Inr l \<Rightarrow>
               if l = 0 then Inr fmempty
               else if \<not> IsKnown val then Inl CtyPanic
               else if IsNull val then Inl CtyPanic
               else (case val of ObjectVal m attrs \<Rightarrow> Inr attrs | _ \<Rightarrow> Inl CtyPanic))"

text \<open>\<^verbatim>\<open>cty.ObjectVal(attrs)\<close> is the known, unmarked object with these attributes.\<close>

definition cty_ObjectVal :: "(string, cty_Value) fmap \<Rightarrow> cty_Value" where
  "cty_ObjectVal attrs = ObjectVal {} attrs"

section \<open>The value tree of package eval\<close>

text \<open>
  \<^verbatim>\<open>Value\<close> is an interface with two implementations, \<^verbatim>\<open>*Object\<close> and \<^verbatim>\<open>CtyValue\<close>.
  An \<^verbatim>\<open>Object\<close> owns the values under its keys: no object is reachable by two routes,
  so a write through a pointer to a nested object is a write to that key of its parent,
  and the tree is a value. The map of an Object is allocated, as \<^verbatim>\<open>NewObject\<close> does, and
  a Value is not \<^verbatim>\<open>nil\<close>.
\<close>

datatype CtyValue = CtyValue (CtyValue_origin: Path) (CtyValue_Value: cty_Value)

datatype Object = Object (Object_origin: Path) (Keys: "(string, Value) fmap")
  and Value = ObjectV (asObject: Object) | CtyV (asCtyValue: CtyValue)

type_synonym ObjectPath = "string list"

definition ErrCannotExtendObject :: Kind where
  "ErrCannotExtendObject = ''cannot extend object''"

primrec Origin :: "Value \<Rightarrow> Path" where
  "Origin (ObjectV obj) = Object_origin obj"
| "Origin (CtyV v) = CtyValue_origin v"

primrec IsObject :: "Value \<Rightarrow> bool" where
  "IsObject (ObjectV obj) = True"
| "IsObject (CtyV v) = False"

definition NewObject :: "Path \<Rightarrow> Object" where
  "NewObject origin = Object origin fmempty"

definition Set :: "Object \<Rightarrow> string \<Rightarrow> Value \<Rightarrow> Object" where
  "Set obj key val = Object (Object_origin obj) (fmupd key val (Keys obj))"

subsection \<open>Errors built by \<^verbatim>\<open>errors.E\<close>\<close>

text \<open>
  The arguments that follow the format string in a call of \<^verbatim>\<open>errors.E\<close>, and the
  verbs of \<^verbatim>\<open>fmt.Sprintf\<close> that the package uses on them: \<^verbatim>\<open>%s\<close> and \<^verbatim>\<open>%v\<close> print a
  string as it is and a slice of strings between brackets, separated by spaces;
  \<^verbatim>\<open>%T\<close> prints the Go type of the argument.
\<close>

datatype fmtarg = ArgString string | ArgPath ObjectPath | ArgValue Value

fun join :: "string \<Rightarrow> string list \<Rightarrow> string" where
  "join sep [] = []"
| "join sep [s] = s"
| "join sep (s # t # ss) = s @ sep @ join sep (t # ss)"

fun typeName :: "fmtarg \<Rightarrow> string" where
  "typeName (ArgString s) = ''string''"
| "typeName (ArgPath p) = ''eval.ObjectPath''"
| "typeName (ArgValue (ObjectV obj)) = ''*eval.Object''"
| "typeName (ArgValue (CtyV v)) = ''eval.CtyValue''"

fun formatArg :: "char \<Rightarrow> fmtarg \<Rightarrow> string" where
  "formatArg c (ArgString s) =
     (if c = CHR ''T'' then typeName (ArgString s)
      else if c = CHR ''s'' \<or> c = CHR ''v'' then s
      else ''%!'' @ [c] @ ''(string='' @ s @ '')'')"
| "formatArg c (ArgPath p) =
     (if c = CHR ''T'' then typeName (ArgPath p)
      else if c = CHR ''s'' \<or> c = CHR ''v'' then ''['' @ join '' '' p @ '']''
      else ''%!'' @ [c] @ ''(eval.ObjectPath)'')"
| "formatArg c (ArgValue v) =
     (if c = CHR ''T'' then typeName (ArgValue v)
      else ''%!'' @ [c] @ ''('' @ typeName (ArgValue v) @ '')'')"

fun Sprintf :: "string \<Rightarrow> fmtarg list \<Rightarrow> string" where
  "Sprintf [] args = []"
| "Sprintf [c] args = (if c = CHR ''%'' then ''%!(NOVERB)'' else [c])"
| "Sprintf (c # d # fs) args =
     (if c = CHR ''%'' then
        (case args of
           [] \<Rightarrow> ''%!'' @ [d] @ ''(MISSING)'' @ Sprintf fs []
         | a # as \<Rightarrow> formatArg d a @ Sprintf fs as)
      else c # Sprintf (d # fs) args)"

text \<open>
  Modelled from the spec: the kind-tagged error factory \<^verbatim>\<open>errors.E\<close> of package
  \<^verbatim>\<open>errors\<close>, which is not among the sources. It builds one atomic error from a kind, a
  format string and the arguments of the format.
\<close>

definition E :: "Kind \<Rightarrow> string \<Rightarrow> fmtarg list \<Rightarrow> error" where
  "E kind format args = Error kind (Sprintf format args) None"

subsection \<open>Access by path\<close>

text \<open>
  \<^verbatim>\<open>GetKeyPath\<close> returns \<^verbatim>\<open>(v, true)\<close>, here \<open>Some v\<close>, or \<^verbatim>\<open>(nil, false)\<close>, here \<open>None\<close>.
  It writes to nothing. \<^verbatim>\<open>path[0]\<close> panics on the empty path.
\<close>

fun GetKeyPath :: "Object \<Rightarrow> ObjectPath \<Rightarrow> panic + Value option" where
  "GetKeyPath obj [] = Inl IndexOutOfRange"
| "GetKeyPath obj (key # next) =
     (case fmlookup (Keys obj) key of
        None \<Rightarrow> Inr None
      | Some v \<Rightarrow>
          if next = [] then Inr (Some v)
          else if \<not> IsObject v then Inr None
          else GetKeyPath (asObject v) next)"

text \<open>
  \<^verbatim>\<open>SetAt\<close> and \<^verbatim>\<open>DeleteAt\<close> return the error (\<open>None\<close> for \<^verbatim>\<open>nil\<close>) and the receiver as
  the call leaves it. Each round of the loop is one unfolding; the object that the
  loop descends into is written back under its key.
\<close>

fun SetAt :: "Object \<Rightarrow> ObjectPath \<Rightarrow> Value \<Rightarrow> panic + (error option \<times> Object)" where
  "SetAt obj [] val = Inl IndexOutOfRange"
| "SetAt obj [k] val = Inr (None, Set obj k val)"
| "SetAt obj (key # k # rest) val =
     (let (subobj, obj1) =
        (case fmlookup (Keys obj) key of
           None \<Rightarrow> (let s = ObjectV (NewObject (Origin val)) in (s, Set obj key s))
         | Some s \<Rightarrow> (s, obj))
      in if \<not> IsObject subobj then
           Inr (Some (E ErrCannotExtendObject
             ''path part %s (from %s) contains non-object parts in the path (%v is %T)''
             [ArgString key, ArgPath (key # k # rest), ArgString key, ArgValue subobj]), obj1)
         else (case SetAt (asObject subobj) (k # rest) val of
                 Inl p \<Rightarrow> Inl p
               | Inr (err, sub) \<Rightarrow> Inr (err, Set obj1 key (ObjectV sub))))"

definition Delete :: "Object \<Rightarrow> string \<Rightarrow> Object" where
  "Delete obj key = Object (Object_origin obj) (fmdrop key (Keys obj))"

fun DeleteAt :: "Object \<Rightarrow> ObjectPath \<Rightarrow> panic + (error option \<times> Object)" where
  "DeleteAt obj [] = Inl IndexOutOfRange"
| "DeleteAt obj [k] = Inr (None, Delete obj k)"
| "DeleteAt obj (key # k # rest) =
     (case fmlookup (Keys obj) key of
        None \<Rightarrow> Inr (None, obj)
      | Some subobj \<Rightarrow>
          if \<not> IsObject subobj then
            Inr (Some (E ErrCannotExtendObject
              ''path part %s (from %v) contains non-object parts in the path (%s is %T)''
              [ArgString key, ArgPath (key # k # rest), ArgString key, ArgValue subobj]), obj)
          else (case DeleteAt (asObject subobj) (k # rest) of
                  Inl p \<Rightarrow> Inl p
                | Inr (err, sub) \<Rightarrow> Inr (err, Set obj key (ObjectV sub))))"

subsection \<open>Bulk insertion\<close>

text \<open>
  A \<^verbatim>\<open>range\<close> over a Go map visits every entry once, in an order that is not fixed.
  \<^verbatim>\<open>SetFrom\<close> takes the entries of \<^verbatim>\<open>values\<close> as the list that the loop visits: its
  keys are distinct, and every order is such a list. The panic carries the error that
  \<^verbatim>\<open>errors.E\<close> builds, which has no kind.
\<close>

fun SetFrom :: "Object \<Rightarrow> (string \<times> Value) list \<Rightarrow> panic + Object" where
  "SetFrom obj [] = Inr obj"
| "SetFrom obj ((k, v) # rest) =
     (if fmlookup (Keys obj) k \<noteq> None then
        Inl (ErrorPanic (E [] ''SetFrom failed: object has key %s'' [ArgString k]))
      else SetFrom (Set obj k v) rest)"

subsection \<open>Provenance-tagged values\<close>

definition NewCtyValue :: "cty_Value \<Rightarrow> Path \<Rightarrow> CtyValue" where
  "NewCtyValue val origin = CtyValue origin (Mark val (PathMark origin))"

definition Raw :: "CtyValue \<Rightarrow> cty_Value" where
  "Raw v = fst (Unmark (CtyValue_Value v))"

text \<open>
  The map that \<^verbatim>\<open>AsValueMap\<close> returns is visited in the order of its keys, which is
  one of the orders of a \<^verbatim>\<open>range\<close>.
\<close>

definition entries :: "(string, 'a) fmap \<Rightarrow> (string \<times> 'a) list" where
  "entries m = sorted_list_of_fmap m"

lemma map_fst_entries: "map fst (entries m) = sorted_list_of_fset (fmdom m)"
  by (simp add: entries_def sorted_list_of_fmap_def comp_def)

lemma distinct_entries_keys: "distinct (map fst (entries m))"
  by (simp add: map_fst_entries sorted_list_of_fset.rep_eq)

lemma distinct_entries: "distinct (entries m)"
  using distinct_entries_keys [of m] by (simp add: distinct_map)

lemma map_of_entries: "map_of (entries m) = fmlookup m"
  by (simp add: entries_def)

lemma set_entries: "set (entries m) = {(k, v). fmlookup m k = Some v}"
proof -
  have "set (entries m) = {(k, v). map_of (entries m) k = Some v}"
    using distinct_entries_keys [of m] by (auto simp: map_of_eq_Some_iff)
  then show ?thesis by (simp add: map_of_entries)
qed

lemma size_list_entries:
  "size_list (\<lambda>(k, v). f v) (entries m) = size_fmap (\<lambda>_. 0) f m"
proof -
  have "size_list g xs = sum_list (map (\<lambda>x. Suc (g x)) xs)"
    for g :: "string \<times> 'a \<Rightarrow> nat" and xs
    by (induction xs) simp_all
  then have "size_list (\<lambda>(k, v). f v) (entries m)
      = sum_list (map (\<lambda>(k, v). Suc (f v)) (entries m))"
    by (simp add: split_def)
  also have "\<dots> = sum (\<lambda>(k, v). Suc (f v)) (set (entries m))"
    by (rule sum_list_distinct_conv_sum_set [OF distinct_entries])
  also have "set (entries m) = fset (fset_of_fmap m)"
    by (auto simp: set_entries fset_of_fmap.rep_eq set_of_map_def)
  finally show ?thesis
    by (simp add: size_fset_simps split_def)
qed

lemma cty_AsValueMap_cases:
  "cty_AsValueMap v = Inr m \<Longrightarrow> m = fmempty \<or> (\<exists>ms. v = ObjectVal ms m)"
  by (cases v) (auto simp: cty_AsValueMap_def split: if_splits sum.splits)

lemma cty_AsValueMap_size:
  assumes "cty_AsValueMap v = Inr m"
  shows "size_fmap (\<lambda>_. 0) size m \<le> size v"
proof -
  have e: "fset (fset_of_fmap (fmempty :: (string, cty_Value) fmap)) = {}"
    by (simp add: fset_of_fmap.rep_eq set_of_map_def)
  from cty_AsValueMap_cases [OF assms] show ?thesis
    using e by (auto simp: size_fset_simps)
qed

text \<open>
  \<^verbatim>\<open>SetFromCtyValues\<close> takes the entries of \<^verbatim>\<open>values\<close> as the list that the loop
  visits. A panic of \<^verbatim>\<open>AsValueMap\<close> ends the call.
\<close>

function SetFromCtyValues ::
  "Object \<Rightarrow> (string \<times> cty_Value) list \<Rightarrow> Path \<Rightarrow> panic + Object" where
  "SetFromCtyValues obj [] origin = Inr obj"
| "SetFromCtyValues obj ((k, v) # rest) origin =
     (if IsObjectType (Type v) then
        (case cty_AsValueMap v of
           Inl p \<Rightarrow> Inl p
         | Inr m \<Rightarrow>
             (case SetFromCtyValues (NewObject origin) (entries m) origin of
                Inl p \<Rightarrow> Inl p
              | Inr subtree \<Rightarrow> SetFromCtyValues (Set obj k (ObjectV subtree)) rest origin))
      else SetFromCtyValues (Set obj k (CtyV (NewCtyValue v origin))) rest origin)"
  by pat_completeness auto
termination
proof (relation "measure (\<lambda>(obj, vs, origin). size_list (\<lambda>(k, v). size v) vs)")
  show "wf (measure (\<lambda>(obj, vs, origin). size_list (\<lambda>(k, v). size v) vs))"
    by simp
next
  fix obj :: Object and k v rest origin and m :: "(string, cty_Value) fmap"
  assume "cty_AsValueMap v = Inr m"
  from cty_AsValueMap_size [OF this]
  show "((NewObject origin, entries m, origin), obj, (k, v) # rest, origin)
        \<in> measure (\<lambda>(obj, vs, origin). size_list (\<lambda>(k, v). size v) vs)"
    by (simp add: size_list_entries)
qed simp_all

definition NewValue :: "cty_Value \<Rightarrow> Path \<Rightarrow> panic + Value" where
  "NewValue val origin =
     (if IsObjectType (Type val) then
        (case cty_AsValueMap val of
           Inl p \<Rightarrow> Inl p
         | Inr m \<Rightarrow>
             (case SetFromCtyValues (NewObject origin) (entries m) origin of
                Inl p \<Rightarrow> Inl p
              | Inr obj \<Rightarrow> Inr (ObjectV obj)))
      else Inr (CtyV (NewCtyValue val origin)))"

text \<open>
  \<^verbatim>\<open>AsValueMap\<close> of an object builds a map with the same keys; the type switch on the
  value under a key is \<open>toCty\<close>. Its default branch cannot be reached: \<open>Value\<close> has the
  two variants only.
\<close>

primrec AsValueMap :: "Object \<Rightarrow> (string, cty_Value) fmap"
  and toCty :: "Value \<Rightarrow> cty_Value" where
  "AsValueMap (Object origin keys) = fmmap toCty keys"
| "toCty (ObjectV obj) = cty_ObjectVal (AsValueMap obj)"
| "toCty (CtyV v) = Raw v"

section \<open>The diagnostic list of package errors\<close>

text \<open>
  The sources hold the tests of the list type of package \<^verbatim>\<open>errors\<close> and calls of it,
  not the type. A list holds atomic errors in the order of insertion. An argument of
  \<^verbatim>\<open>L\<close> or \<^verbatim>\<open>Append\<close> is a Go \<^verbatim>\<open>error\<close>: \<^verbatim>\<open>nil\<close> (here \<open>None\<close>), an atomic error,
  another list (\<open>ListError\<close>), or a batch of diagnostics.
\<close>

datatype DiagnosticList = DiagnosticList (errs: "error list")

fun atomic :: "error \<Rightarrow> bool" where
  "atomic (Error k d r) = True"
| "atomic (StdError s) = True"
| "atomic (ListError es) = False"
| "atomic (Diagnostics ds) = False"

text \<open>A list passed where an \<^verbatim>\<open>error\<close> is expected.\<close>

definition asError :: "DiagnosticList \<Rightarrow> error" where
  "asError l = ListError (errs l)"

text \<open>
  Modelled from the spec: the conversion of one structured diagnostic, which carries a
  detail message and a source range, to one atomic error (part of \<^verbatim>\<open>Append\<close>, not
  among the sources).
\<close>

definition diagError :: "Diagnostic \<Rightarrow> error" where
  "diagError d = Error [] (Detail d) (Subject d)"

text \<open>
  Modelled from the spec: \<^verbatim>\<open>Append\<close> of the list type, not among the sources. \<^verbatim>\<open>nil\<close>
  is ignored, the elements of another list are appended one by one, every diagnostic
  of a batch becomes one atomic error, in the order of the batch, and any other
  error is appended as it is.
\<close>

fun Append :: "DiagnosticList \<Rightarrow> error option \<Rightarrow> DiagnosticList" where
  "Append l None = l"
| "Append l (Some (ListError es)) = DiagnosticList (errs l @ es)"
| "Append l (Some (Diagnostics ds)) = DiagnosticList (errs l @ map diagError ds)"
| "Append l (Some e) = DiagnosticList (errs l @ [e])"

text \<open>
  Modelled from the spec: the constructor \<^verbatim>\<open>L\<close>, not among the sources. The initial
  arguments are appended in turn, so \<^verbatim>\<open>nil\<close> entries are dropped.
\<close>

definition L :: "error option list \<Rightarrow> DiagnosticList" where
  "L args = foldl Append (DiagnosticList []) args"

text \<open>
  Modelled from the spec: \<^verbatim>\<open>Errors\<close>, not among the sources. It is the sequence of
  atomic errors that the list holds.
\<close>

definition Errors :: "DiagnosticList \<Rightarrow> error list" where
  "Errors l = errs l"

text \<open>
  Modelled from the spec: \<^verbatim>\<open>AsError\<close>, not among the sources. It is \<^verbatim>\<open>nil\<close> for the
  empty list and the list itself, as one error, otherwise.
\<close>

definition AsError :: "DiagnosticList \<Rightarrow> error option" where
  "AsError l = (if errs l = [] then None else Some (asError l))"

text \<open>
  Modelled from the spec: \<^verbatim>\<open>Error\<close>, not among the sources. It is the empty string
  for the empty list and otherwise joins the texts of the errors on one line. The
  spec fixes neither the text of one atomic error nor the separator: both are
  parameters.
\<close>

definition ErrorString :: "(error \<Rightarrow> string) \<Rightarrow> string \<Rightarrow> DiagnosticList \<Rightarrow> string" where
  "ErrorString msg sep l = (if errs l = [] then [] else join sep (map msg (errs l)))"

text \<open>
  Modelled from the spec: \<^verbatim>\<open>Detailed\<close>, not among the sources. It is the empty string
  for the empty list and otherwise the header line followed by one line per error,
  which starts with a tab and a dash. The text of one atomic error is a parameter.
\<close>

definition Detailed :: "(error \<Rightarrow> string) \<Rightarrow> DiagnosticList \<Rightarrow> string" where
  "Detailed msg l =
     (if errs l = [] then []
      else ''error list:'' @ concat (map (\<lambda>e. [CHR 0x0A, CHR 0x09] @ ''-'' @ msg e) (errs l)))"

section \<open>Notions of the specification\<close>

text \<open>
  The value reached from a value by consuming the keys of a path one at a time: a key
  is looked up in an object, and nothing is reached through a scalar or a missing key.
\<close>

fun reach :: "Value \<Rightarrow> ObjectPath \<Rightarrow> Value option" where
  "reach v [] = Some v"
| "reach (CtyV c) (k # ks) = None"
| "reach (ObjectV obj) (k # ks) =
     (case fmlookup (Keys obj) k of None \<Rightarrow> None | Some w \<Rightarrow> reach w ks)"

text \<open>
  Some key of the path is absent at its level: the keys before position \<open>i\<close> lead to an
  object that does not have the key at position \<open>i\<close>.
\<close>

definition keyAbsent :: "Object \<Rightarrow> ObjectPath \<Rightarrow> bool" where
  "keyAbsent obj path =
     (\<exists>i \<in> {..<length path}. case reach (ObjectV obj) (take i path) of
         Some (ObjectV sub) \<Rightarrow> fmlookup (Keys sub) (path ! i) = None
       | _ \<Rightarrow> False)"

text \<open>
  Some key of the path that is not its last maps to a scalar: the first \<open>i\<close> keys, with
  \<open>0 < i < length path\<close>, lead to a scalar.
\<close>

definition scalarOnWay :: "Object \<Rightarrow> ObjectPath \<Rightarrow> bool" where
  "scalarOnWay obj path =
     (\<exists>i \<in> {1..<length path}. case reach (ObjectV obj) (take i path) of
         Some (CtyV c) \<Rightarrow> True
       | _ \<Rightarrow> False)"

text \<open>\<open>stuck r k\<close>: the walk that has reached \<open>r\<close> cannot consume the key \<open>k\<close>.\<close>

fun stuck :: "Value option \<Rightarrow> string \<Rightarrow> bool" where
  "stuck None k = False"
| "stuck (Some (CtyV c)) k = True"
| "stuck (Some (ObjectV sub)) k = (fmlookup (Keys sub) k = None)"

text \<open>
  The tree of a raw value: an object for every value of an object type, with the trees
  of its attributes under their keys, and a scalar tagged with the origin for every
  other value. A null or unknown value of an object type has no attributes to give.
\<close>

primrec build :: "Path \<Rightarrow> cty_Value \<Rightarrow> Value" where
  "build origin (StringVal m s) = CtyV (NewCtyValue (StringVal m s) origin)"
| "build origin (NumberIntVal m n) = CtyV (NewCtyValue (NumberIntVal m n) origin)"
| "build origin (BoolVal m b) = CtyV (NewCtyValue (BoolVal m b) origin)"
| "build origin (TupleVal m vs) = CtyV (NewCtyValue (TupleVal m vs) origin)"
| "build origin (ObjectVal m attrs) = ObjectV (Object origin (fmmap (build origin) attrs))"
| "build origin (NullVal m t) =
     (if IsObjectType t then ObjectV (Object origin fmempty)
      else CtyV (NewCtyValue (NullVal m t) origin))"
| "build origin (UnknownVal m t) =
     (if IsObjectType t then ObjectV (Object origin fmempty)
      else CtyV (NewCtyValue (UnknownVal m t) origin))"

definition upd ::
  "Path \<Rightarrow> (string, Value) fmap \<Rightarrow> string \<times> cty_Value \<Rightarrow> (string, Value) fmap" where
  "upd origin m kv = fmupd (fst kv) (build origin (snd kv)) m"

text \<open>
  The raw values that can be decomposed all the way down: every value of an object
  type, the value itself or one nested under the attributes of objects, is unmarked,
  and is a known object that is not null, or a null or unknown value of the object type
  without attributes.
\<close>

primrec convertible :: "cty_Value \<Rightarrow> bool" where
  "convertible (StringVal m s) = True"
| "convertible (NumberIntVal m n) = True"
| "convertible (BoolVal m b) = True"
| "convertible (TupleVal m vs) = True"
| "convertible (ObjectVal m attrs) = (m = {} \<and> fmpred (\<lambda>k b. b) (fmmap convertible attrs))"
| "convertible (NullVal m t) = (IsObjectType t \<longrightarrow> m = {} \<and> t = cty_Object fmempty)"
| "convertible (UnknownVal m t) = (IsObjectType t \<longrightarrow> m = {} \<and> t = cty_Object fmempty)"

text \<open>
  The raw values without marks and with known contents that are not null: the value and
  every value nested under the attributes of objects is unmarked, and every value of
  an object type among them is a known object that is not null.
\<close>

primrec clean :: "cty_Value \<Rightarrow> bool" where
  "clean (StringVal m s) = (m = {})"
| "clean (NumberIntVal m n) = (m = {})"
| "clean (BoolVal m b) = (m = {})"
| "clean (TupleVal m vs) = (m = {})"
| "clean (ObjectVal m attrs) = (m = {} \<and> fmpred (\<lambda>k b. b) (fmmap clean attrs))"
| "clean (NullVal m t) = (m = {} \<and> \<not> IsObjectType t)"
| "clean (UnknownVal m t) = (m = {} \<and> \<not> IsObjectType t)"

section \<open>Example values\<close>

definition exScalar :: Value where
  "exScalar = CtyV (NewCtyValue (StringVal {} ''hello'') ''main.tm'')"

definition exInner :: Object where
  "exInner = Object ''main.tm'' (fmupd ''b'' exScalar fmempty)"

definition exTree :: Object where
  "exTree = Object ''main.tm'' (fmupd ''a'' (ObjectV exInner) fmempty)"

definition exNew :: Value where
  "exNew = CtyV (NewCtyValue (StringVal {} ''test'') ''other.tm'')"

definition exSensitive :: cty_Value where
  "exSensitive = StringVal {OtherMark ''sensitive''} ''s''"

definition exMarkedObject :: cty_Value where
  "exMarkedObject = ObjectVal {} (fmupd ''a'' exSensitive fmempty)"

definition exPlainObject :: cty_Value where
  "exPlainObject =
     ObjectVal {} (fmupd ''val'' (ObjectVal {} (fmupd ''test'' (StringVal {} ''test'') fmempty))
       (fmupd ''n'' (NumberIntVal {} 3) fmempty))"

definition exNullEmptyObject :: cty_Value where
  "exNullEmptyObject = NullVal {} (cty_Object fmempty)"

definition exNullObject :: cty_Value where
  "exNullObject = NullVal {} (cty_Object (fmupd ''a'' cty_String fmempty))"

section \<open>Properties of the operations\<close>

lemma GetKeyPath_reach:
  "path \<noteq> [] \<Longrightarrow> GetKeyPath obj path = Inr (reach (ObjectV obj) path)"
proof (induction obj path rule: GetKeyPath.induct)
  case (1 obj)
  then show ?case by simp
next
  case (2 obj key "next")
  show ?case
  proof (cases "fmlookup (Keys obj) key")
    case None
    then show ?thesis by simp
  next
    case (Some v)
    show ?thesis
    proof (cases "next")
      case Nil
      with Some show ?thesis by simp
    next
      case (Cons k ks)
      show ?thesis
      proof (cases v)
        case (ObjectV sub)
        with Some Cons 2 show ?thesis by simp
      next
        case (CtyV c)
        with Some Cons show ?thesis by simp
      qed
    qed
  qed
qed

lemma reach_None_stuck:
  "reach v path = None \<longleftrightarrow> (\<exists>i<length path. stuck (reach v (take i path)) (path ! i))"
proof (induction path arbitrary: v)
  case Nil
  then show ?case by simp
next
  case (Cons k ks)
  show ?case
  proof (cases v)
    case (CtyV c)
    have "stuck (reach v (take 0 (k # ks))) ((k # ks) ! 0)"
      using CtyV by simp
    then have "\<exists>i<length (k # ks). stuck (reach v (take i (k # ks))) ((k # ks) ! i)"
      by blast
    with CtyV show ?thesis by simp
  next
    case (ObjectV obj)
    show ?thesis
    proof (cases "fmlookup (Keys obj) k")
      case None
      have "stuck (reach v (take 0 (k # ks))) ((k # ks) ! 0)"
        using ObjectV None by simp
      then have "\<exists>i<length (k # ks). stuck (reach v (take i (k # ks))) ((k # ks) ! i)"
        by blast
      with ObjectV None show ?thesis by simp
    next
      case (Some w)
      have step: "stuck (reach v (take (Suc i) (k # ks))) ((k # ks) ! Suc i)
                  = stuck (reach w (take i ks)) (ks ! i)" for i
        using ObjectV Some by simp
      have zero: "\<not> stuck (reach v (take 0 (k # ks))) ((k # ks) ! 0)"
        using ObjectV Some by simp
      have "(\<exists>i<length (k # ks). stuck (reach v (take i (k # ks))) ((k # ks) ! i))
            \<longleftrightarrow> (\<exists>i<length ks. stuck (reach w (take i ks)) (ks ! i))"
      proof
        assume "\<exists>i<length (k # ks). stuck (reach v (take i (k # ks))) ((k # ks) ! i)"
        then obtain i where i: "i < length (k # ks)"
          "stuck (reach v (take i (k # ks))) ((k # ks) ! i)" by blast
        with zero obtain j where "i = Suc j" by (cases i) auto
        with i step [of j] show "\<exists>i<length ks. stuck (reach w (take i ks)) (ks ! i)"
          by auto
      next
        assume "\<exists>i<length ks. stuck (reach w (take i ks)) (ks ! i)"
        then obtain i where "i < length ks" "stuck (reach w (take i ks)) (ks ! i)" by blast
        with step [of i] have "Suc i < length (k # ks)
          \<and> stuck (reach v (take (Suc i) (k # ks))) ((k # ks) ! Suc i)" by simp
        then show "\<exists>i<length (k # ks). stuck (reach v (take i (k # ks))) ((k # ks) ! i)"
          by blast
      qed
      moreover have "reach v (k # ks) = reach w ks"
        using ObjectV Some by simp
      ultimately show ?thesis using Cons.IH [of w] by simp
    qed
  qed
qed

lemma stuck_cases:
  "stuck r k \<longleftrightarrow> (case r of Some (ObjectV sub) \<Rightarrow> fmlookup (Keys sub) k = None
      | Some (CtyV c) \<Rightarrow> True | None \<Rightarrow> False)"
  by (cases "(r, k)" rule: stuck.cases) simp_all

lemma reach_None_iff:
  "reach (ObjectV obj) path = None \<longleftrightarrow> keyAbsent obj path \<or> scalarOnWay obj path"
proof -
  have "(\<exists>i<length path. stuck (reach (ObjectV obj) (take i path)) (path ! i))
        \<longleftrightarrow> keyAbsent obj path \<or> scalarOnWay obj path" (is "?L \<longleftrightarrow> ?R")
  proof
    assume ?L
    then obtain i where i: "i < length path"
      "stuck (reach (ObjectV obj) (take i path)) (path ! i)" by blast
    show ?R
    proof (cases "reach (ObjectV obj) (take i path)")
      case None
      with i show ?thesis by simp
    next
      case (Some w)
      show ?thesis
      proof (cases w)
        case (ObjectV sub)
        with Some i have "keyAbsent obj path"
          unfolding keyAbsent_def by (auto intro!: bexI [of _ i])
        then show ?thesis ..
      next
        case (CtyV c)
        with Some have "i \<noteq> 0" by (cases i) auto
        with CtyV Some i have "scalarOnWay obj path"
          unfolding scalarOnWay_def by (auto intro!: bexI [of _ i])
        then show ?thesis ..
      qed
    qed
  next
    assume ?R
    then obtain i where i: "i < length path" and
      c: "(case reach (ObjectV obj) (take i path) of
             Some (ObjectV sub) \<Rightarrow> fmlookup (Keys sub) (path ! i) = None | _ \<Rightarrow> False)
        \<or> (case reach (ObjectV obj) (take i path) of Some (CtyV c) \<Rightarrow> True | _ \<Rightarrow> False)"
      unfolding keyAbsent_def scalarOnWay_def by auto
    from c have "stuck (reach (ObjectV obj) (take i path)) (path ! i)"
      by (simp add: stuck_cases split: option.splits Value.splits)
    with i show ?L by blast
  qed
  then show ?thesis by (simp add: reach_None_stuck)
qed

lemma fmupd_same: "fmlookup m k = Some v \<Longrightarrow> fmupd k v m = m"
  by (rule fmap_ext) auto

lemma fmdrop_absent: "fmlookup m k = None \<Longrightarrow> fmdrop k m = m"
  by (rule fmap_ext) simp

lemma Set_same: "fmlookup (Keys obj) k = Some v \<Longrightarrow> Set obj k v = obj"
  by (cases obj) (simp add: Set_def fmupd_same)

lemma Delete_absent: "fmlookup (Keys obj) k = None \<Longrightarrow> Delete obj k = obj"
  by (cases obj) (simp add: Delete_def fmdrop_absent)

lemma Keys_Set [simp]: "Keys (Set obj k v) = fmupd k v (Keys obj)"
  by (simp add: Set_def)

lemma origin_Set [simp]: "Object_origin (Set obj k v) = Object_origin obj"
  by (simp add: Set_def)

lemma Keys_Delete [simp]: "Keys (Delete obj k) = fmdrop k (Keys obj)"
  by (simp add: Delete_def)

lemma Keys_NewObject [simp]: "Keys (NewObject origin) = fmempty"
  by (simp add: NewObject_def)

lemma origin_NewObject [simp]: "Object_origin (NewObject origin) = origin"
  by (simp add: NewObject_def)

text \<open>One round of the loop of \<^verbatim>\<open>SetAt\<close>, by the three cases of the key.\<close>

lemma SetAt_missing:
  "fmlookup (Keys obj) key = None \<Longrightarrow>
   SetAt obj (key # k # rest) val =
     (case SetAt (NewObject (Origin val)) (k # rest) val of
        Inl p \<Rightarrow> Inl p
      | Inr (err, sub) \<Rightarrow> Inr (err, Set obj key (ObjectV sub)))"
  by (cases "SetAt (NewObject (Origin val)) (k # rest) val")
     (auto simp: Let_def Set_def)

lemma SetAt_object:
  "fmlookup (Keys obj) key = Some (ObjectV sub) \<Longrightarrow>
   SetAt obj (key # k # rest) val =
     (case SetAt sub (k # rest) val of
        Inl p \<Rightarrow> Inl p
      | Inr (err, sub') \<Rightarrow> Inr (err, Set obj key (ObjectV sub')))"
  by simp

lemma SetAt_scalar:
  "fmlookup (Keys obj) key = Some (CtyV c) \<Longrightarrow>
   SetAt obj (key # k # rest) val =
     Inr (Some (E ErrCannotExtendObject
       ''path part %s (from %s) contains non-object parts in the path (%v is %T)''
       [ArgString key, ArgPath (key # k # rest), ArgString key, ArgValue (CtyV c)]), obj)"
  by simp

lemma SetAt_fresh:
  "path \<noteq> [] \<Longrightarrow>
   \<exists>obj'. SetAt (NewObject origin) path val = Inr (None, obj')
     \<and> Object_origin obj' = origin
     \<and> reach (ObjectV obj') path = Some val
     \<and> (\<forall>i. 0 < i \<and> i < length path \<longrightarrow>
          (\<exists>sub. reach (ObjectV obj') (take i path) = Some (ObjectV sub)
                \<and> Object_origin sub = Origin val))"
proof (induction path arbitrary: origin)
  case Nil
  then show ?case by simp
next
  case (Cons key ks)
  show ?case
  proof (cases ks)
    case Nil
    then show ?thesis by simp
  next
    case (Cons k rest)
    then have "ks \<noteq> []" by simp
    from Cons.IH [OF this, of "Origin val"] obtain sub where
      s: "SetAt (NewObject (Origin val)) ks val = Inr (None, sub)"
         "Object_origin sub = Origin val"
         "reach (ObjectV sub) ks = Some val"
         "\<forall>i. 0 < i \<and> i < length ks \<longrightarrow>
            (\<exists>s. reach (ObjectV sub) (take i ks) = Some (ObjectV s) \<and> Object_origin s = Origin val)"
      by blast
    let ?obj' = "Set (NewObject origin) key (ObjectV sub)"
    have 1: "SetAt (NewObject origin) (key # ks) val = Inr (None, ?obj')"
      using s(1) Cons by (simp add: SetAt_missing del: SetAt.simps)
    have 2: "reach (ObjectV ?obj') (key # ks) = Some val"
      using s(3) by simp
    have 3: "\<exists>s. reach (ObjectV ?obj') (take i (key # ks)) = Some (ObjectV s)
                \<and> Object_origin s = Origin val"
      if "0 < i" "i < length (key # ks)" for i
    proof (cases i)
      case 0
      with that show ?thesis by simp
    next
      case (Suc j)
      show ?thesis
      proof (cases j)
        case 0
        with Suc s(2) show ?thesis by simp
      next
        case (Suc j')
        with \<open>i = Suc j\<close> that s(4) show ?thesis by simp
      qed
    qed
    from 1 2 3 show ?thesis by (intro exI [of _ ?obj']) simp
  qed
qed

lemma SetAt_blocked:
  "0 < i \<Longrightarrow> i < length path \<Longrightarrow> reach (ObjectV obj) (take i path) = Some (CtyV c) \<Longrightarrow>
   SetAt obj path val =
     Inr (Some (E ErrCannotExtendObject
       ''path part %s (from %s) contains non-object parts in the path (%v is %T)''
       [ArgString (path ! (i - 1)), ArgPath (drop (i - 1) path),
        ArgString (path ! (i - 1)), ArgValue (CtyV c)]), obj)"
proof (induction path arbitrary: obj i)
  case Nil
  then show ?case by simp
next
  case (Cons key ks)
  from Cons.prems obtain k rest where ks: "ks = k # rest" by (cases ks) auto
  from Cons.prems obtain j where i: "i = Suc j" by (cases i) auto
  from Cons.prems(3) i obtain w where
    w: "fmlookup (Keys obj) key = Some w" "reach w (take j ks) = Some (CtyV c)"
    by (auto split: option.splits)
  show ?case
  proof (cases j)
    case 0
    with w have "w = CtyV c" by simp
    with w(1) 0 i ks show ?thesis by (simp add: SetAt_scalar del: SetAt.simps)
  next
    case (Suc j')
    with w(2) ks obtain sub where sub: "w = ObjectV sub" by (cases w) auto
    have "SetAt sub ks val =
       Inr (Some (E ErrCannotExtendObject
       ''path part %s (from %s) contains non-object parts in the path (%v is %T)''
       [ArgString (ks ! (j - 1)), ArgPath (drop (j - 1) ks),
        ArgString (ks ! (j - 1)), ArgValue (CtyV c)]), sub)"
      using Cons.IH [of j sub] Cons.prems i Suc w(2) sub by simp
    then show ?thesis
      using w(1) sub ks i Suc by (simp add: SetAt_object Set_same del: SetAt.simps)
  qed
qed

lemma DeleteAt_object:
  "fmlookup (Keys obj) key = Some (ObjectV sub) \<Longrightarrow>
   DeleteAt obj (key # k # rest) =
     (case DeleteAt sub (k # rest) of
        Inl p \<Rightarrow> Inl p
      | Inr (err, sub') \<Rightarrow> Inr (err, Set obj key (ObjectV sub')))"
  by simp

lemma SetAt_success_cases:
  assumes "SetAt obj (key # k # rest) val = Inr (None, obj1)"
  shows "\<exists>sub sub1. SetAt sub (k # rest) val = Inr (None, sub1)
           \<and> fmlookup (Keys obj1) key = Some (ObjectV sub1)"
proof (cases "fmlookup (Keys obj) key")
  case None
  from assms [unfolded SetAt_missing [OF None]] show ?thesis
    by (auto split: sum.splits prod.splits)
next
  case (Some w)
  show ?thesis
  proof (cases w)
    case (ObjectV sub)
    with Some have l: "fmlookup (Keys obj) key = Some (ObjectV sub)" by simp
    from assms [unfolded SetAt_object [OF l]] show ?thesis
      by (auto split: sum.splits prod.splits)
  next
    case (CtyV c)
    with Some have l: "fmlookup (Keys obj) key = Some (CtyV c)" by simp
    from assms [unfolded SetAt_scalar [OF l]] show ?thesis by simp
  qed
qed

lemma SetAt_DeleteAt:
  "SetAt obj path val = Inr (None, obj1) \<Longrightarrow>
   \<exists>obj2. DeleteAt obj1 path = Inr (None, obj2)
     \<and> GetKeyPath obj2 path = Inr None
     \<and> DeleteAt obj2 path = Inr (None, obj2)"
proof (induction path arbitrary: obj obj1)
  case Nil
  then show ?case by simp
next
  case (Cons key ks)
  show ?case
  proof (cases ks)
    case Nil
    have "Delete (Delete obj1 key) key = Delete obj1 key"
      by (rule Delete_absent) simp
    with Nil show ?thesis by simp
  next
    case (Cons k rest)
    from SetAt_success_cases [OF Cons.prems [unfolded Cons]] obtain sub sub1 where
      s: "SetAt sub ks val = Inr (None, sub1)"
         "fmlookup (Keys obj1) key = Some (ObjectV sub1)"
      unfolding Cons by blast
    from Cons.IH [OF s(1)] obtain sub2 where
      d: "DeleteAt sub1 ks = Inr (None, sub2)" "GetKeyPath sub2 ks = Inr None"
         "DeleteAt sub2 ks = Inr (None, sub2)" by blast
    let ?obj2 = "Set obj1 key (ObjectV sub2)"
    have l: "fmlookup (Keys ?obj2) key = Some (ObjectV sub2)" by simp
    have 1: "DeleteAt obj1 (key # ks) = Inr (None, ?obj2)"
      using d(1) s(2) Cons by (simp add: DeleteAt_object del: DeleteAt.simps)
    have 2: "GetKeyPath ?obj2 (key # ks) = Inr None"
      using d(2) Cons by simp
    have 3: "DeleteAt ?obj2 (key # ks) = Inr (None, ?obj2)"
      using d(3) l Cons by (simp add: DeleteAt_object Set_same del: DeleteAt.simps)
    from 1 2 3 show ?thesis by blast
  qed
qed

lemma DeleteAt_absent:
  "i < length path \<Longrightarrow> reach (ObjectV obj) (take i path) = Some (ObjectV sub) \<Longrightarrow>
   fmlookup (Keys sub) (path ! i) = None \<Longrightarrow> DeleteAt obj path = Inr (None, obj)"
proof (induction path arbitrary: obj i)
  case Nil
  then show ?case by simp
next
  case (Cons key ks)
  show ?case
  proof (cases i)
    case 0
    with Cons.prems have "fmlookup (Keys obj) key = None" by simp
    then show ?thesis by (cases ks) (simp_all add: Delete_absent)
  next
    case (Suc j)
    with Cons.prems obtain w where
      w: "fmlookup (Keys obj) key = Some w" "reach w (take j ks) = Some (ObjectV sub)"
      by (auto split: option.splits)
    from Suc Cons.prems obtain k rest where ks: "ks = k # rest" by (cases ks) auto
    show ?thesis
    proof (cases w)
      case (ObjectV s)
      have "DeleteAt s ks = Inr (None, s)"
        using Cons.IH [of j s] Cons.prems Suc w(2) ObjectV by simp
      with w(1) ObjectV ks show ?thesis
        by (simp add: DeleteAt_object Set_same del: DeleteAt.simps)
    next
      case (CtyV c)
      with w(2) have "j = 0" by (cases j) (auto simp: ks)
      with w(2) CtyV show ?thesis by simp
    qed
  qed
qed

lemma keyAbsent_DeleteAt: "keyAbsent obj path \<Longrightarrow> DeleteAt obj path = Inr (None, obj)"
proof -
  assume "keyAbsent obj path"
  then obtain i where i: "i < length path" and
    c: "(case reach (ObjectV obj) (take i path) of
           Some (ObjectV sub) \<Rightarrow> fmlookup (Keys sub) (path ! i) = None | _ \<Rightarrow> False)"
    unfolding keyAbsent_def by auto
  from c obtain sub where "reach (ObjectV obj) (take i path) = Some (ObjectV sub)"
    "fmlookup (Keys sub) (path ! i) = None"
    by (auto split: option.splits Value.splits)
  with i show ?thesis by (rule DeleteAt_absent)
qed



lemma SetFrom_collision:
  "distinct (map fst vals) \<Longrightarrow> \<exists>k \<in> fst ` set vals. fmlookup (Keys obj) k \<noteq> None \<Longrightarrow>
   \<exists>k \<in> fst ` set vals. fmlookup (Keys obj) k \<noteq> None \<and>
     SetFrom obj vals =
       Inl (ErrorPanic (E [] ''SetFrom failed: object has key %s'' [ArgString k]))"
proof (induction vals arbitrary: obj)
  case Nil
  then show ?case by simp
next
  case (Cons kv vals)
  obtain k v where kv: "kv = (k, v)" by (cases kv)
  show ?case
  proof (cases "fmlookup (Keys obj) k = None")
    case False
    with kv show ?thesis by auto
  next
    case True
    from Cons.prems kv have d: "distinct (map fst vals)" and nk: "k \<notin> fst ` set vals"
      by auto
    from Cons.prems(2) True kv
    have "\<exists>k' \<in> fst ` set vals. fmlookup (Keys (Set obj k v)) k' \<noteq> None"
      by auto
    from Cons.IH [OF d this] obtain k' where
      k': "k' \<in> fst ` set vals" "fmlookup (Keys (Set obj k v)) k' \<noteq> None"
          "SetFrom (Set obj k v) vals =
             Inl (ErrorPanic (E [] ''SetFrom failed: object has key %s'' [ArgString k']))"
      by blast
    from k'(1) nk have "k' \<noteq> k" by auto
    with k'(2) have "fmlookup (Keys obj) k' \<noteq> None" by simp
    moreover from k'(3) True kv have "SetFrom obj (kv # vals) =
        Inl (ErrorPanic (E [] ''SetFrom failed: object has key %s'' [ArgString k']))"
      by simp
    moreover from k'(1) have "k' \<in> fst ` set (kv # vals)" by auto
    ultimately show ?thesis by blast
  qed
qed

lemma SetFrom_fresh:
  "distinct (map fst vals) \<Longrightarrow> \<forall>k \<in> fst ` set vals. fmlookup (Keys obj) k = None \<Longrightarrow>
   SetFrom obj vals = Inr (Object (Object_origin obj) (Keys obj ++\<^sub>f fmap_of_list vals))"
proof (induction vals arbitrary: obj)
  case Nil
  then show ?case by (cases obj) simp
next
  case (Cons kv vals)
  obtain k v where kv: "kv = (k, v)" by (cases kv)
  from Cons.prems kv have fresh: "fmlookup (Keys obj) k = None" by simp
  have d: "distinct (map fst vals)" using Cons.prems by simp
  have f: "\<forall>k' \<in> fst ` set vals. fmlookup (Keys (Set obj k v)) k' = None"
    using Cons.prems kv by (auto simp: image_iff)
  have "fmupd k v (Keys obj) ++\<^sub>f fmap_of_list vals
      = Keys obj ++\<^sub>f fmap_of_list ((k, v) # vals)"
  proof (rule fmap_ext)
    fix x
    show "fmlookup (fmupd k v (Keys obj) ++\<^sub>f fmap_of_list vals) x
        = fmlookup (Keys obj ++\<^sub>f fmap_of_list ((k, v) # vals)) x"
      using Cons.prems(1) kv
      by (auto simp: fmlookup_of_list fmlookup_dom_iff map_of_eq_None_iff image_iff
               fset_of_list_elem split: option.splits)
  qed
  with Cons.IH [OF d f] fresh kv show ?case by simp
qed

lemma fmpred_fmmap_all:
  "fmpred (\<lambda>k. f) m \<longleftrightarrow> (\<forall>v \<in> fmran' m. f v)"
  by (auto simp: fmpred_iff fmlookup_ran'_iff)

lemma WithMarks_same: "marks v = ms \<Longrightarrow> WithMarks ms v = v"
  by (cases v) auto


lemma Raw_NewCtyValue: "Raw (NewCtyValue v origin) = WithMarks {} v"
  by (cases v) (simp_all add: Raw_def NewCtyValue_def Unmark_def Mark_def)

lemma not_object_convertible: "\<not> IsObjectType (Type v) \<Longrightarrow> convertible v"
  by (cases v) simp_all

lemma not_object_build:
  "\<not> IsObjectType (Type v) \<Longrightarrow> build origin v = CtyV (NewCtyValue v origin)"
  by (cases v) simp_all

lemma fmdom_empty_iff: "fmdom m = {||} \<longleftrightarrow> m = fmempty"
proof
  assume "fmdom m = {||}"
  then show "m = fmempty" by (simp add: fmap_ext fmdom_notD)
qed simp

lemma IsObjectType_iff: "IsObjectType t \<longleftrightarrow> (\<exists>atys. t = cty_Object atys)"
  by (cases t) simp_all

lemma AsValueMap_object_Inl:
  assumes "IsObjectType (Type v)" "cty_AsValueMap v = Inl p"
  shows "p = CtyPanic \<and> \<not> convertible v"
proof (cases v)
  case (ObjectVal ms attrs)
  with assms show ?thesis
    by (auto simp: cty_AsValueMap_def LengthInt_def IsMarked_def split: if_splits)
next
  case (NullVal ms t)
  with assms obtain atys where "t = cty_Object atys" by (auto simp: IsObjectType_iff)
  with NullVal assms show ?thesis
    by (auto simp: cty_AsValueMap_def LengthInt_def IsMarked_def fmdom_empty_iff split: if_splits)
next
  case (UnknownVal ms t)
  with assms obtain atys where "t = cty_Object atys" by (auto simp: IsObjectType_iff)
  with UnknownVal assms show ?thesis
    by (auto simp: cty_AsValueMap_def LengthInt_def IsMarked_def fmdom_empty_iff split: if_splits)
qed (use assms in simp_all)

lemma AsValueMap_object_Inr:
  assumes "IsObjectType (Type v)" "cty_AsValueMap v = Inr m"
  shows "(convertible v \<longleftrightarrow> (\<forall>w \<in> fmran' m. convertible w))
       \<and> build origin v = ObjectV (Object origin (fmmap (build origin) m))"
proof (cases v)
  case (ObjectVal ms attrs)
  with assms show ?thesis
    by (auto simp: cty_AsValueMap_def LengthInt_def IsMarked_def fmpred_fmmap_all
             fmdom_empty_iff split: if_splits)
next
  case (NullVal ms t)
  with assms obtain atys where "t = cty_Object atys" by (auto simp: IsObjectType_iff)
  with NullVal assms show ?thesis
    by (auto simp: cty_AsValueMap_def LengthInt_def IsMarked_def fmdom_empty_iff split: if_splits)
next
  case (UnknownVal ms t)
  with assms obtain atys where "t = cty_Object atys" by (auto simp: IsObjectType_iff)
  with UnknownVal assms show ?thesis
    by (auto simp: cty_AsValueMap_def LengthInt_def IsMarked_def fmdom_empty_iff split: if_splits)
qed (use assms in simp_all)


lemma lookup_foldl_upd:
  "distinct (map fst es) \<Longrightarrow>
   fmlookup (foldl (upd origin) m es) x =
     (case map_of es x of None \<Rightarrow> fmlookup m x | Some v \<Rightarrow> Some (build origin v))"
proof (induction es arbitrary: m)
  case Nil
  then show ?case by simp
next
  case (Cons kv es)
  obtain k v where kv: "kv = (k, v)" by (cases kv)
  from Cons.prems kv have "map_of es k = None"
    by (auto simp: map_of_eq_None_iff)
  with Cons kv show ?case by (auto simp: upd_def split: option.splits)
qed

lemma upd_pair: "upd origin m (k, v) = fmupd k (build origin v) m"
  by (simp add: upd_def)

lemma foldl_upd_entries: "foldl (upd origin) fmempty (entries m) = fmmap (build origin) m"
  by (rule fmap_ext)
     (simp add: lookup_foldl_upd [OF distinct_entries_keys] map_of_entries split: option.splits)

lemma SetFromCtyValues_spec:
  "SetFromCtyValues obj es origin =
     (if \<forall>v \<in> snd ` set es. convertible v
      then Inr (Object (Object_origin obj) (foldl (upd origin) (Keys obj) es))
      else Inl CtyPanic)"
proof (induction obj es origin rule: SetFromCtyValues.induct)
  case (1 obj origin)
  then show ?case by simp
next
  case (2 obj k v rest origin)
  show ?case
  proof (cases "IsObjectType (Type v)")
    case False
    from 2(3) [OF False] False show ?thesis
      by (simp add: not_object_convertible not_object_build upd_pair)
  next
    case True
    show ?thesis
    proof (cases "cty_AsValueMap v")
      case (Inl p)
      with True AsValueMap_object_Inl [OF True Inl] show ?thesis by simp
    next
      case (Inr m)
      note a = AsValueMap_object_Inr [OF True Inr, of origin]
      have r: "snd ` set (entries m) = fmran' m"
        by (auto simp: set_entries fmlookup_ran'_iff image_iff)
      note ih1 = 2(1) [OF True Inr]
      show ?thesis
      proof (cases "convertible v")
        case False
        with a have "\<not> (\<forall>w \<in> fmran' m. convertible w)" by simp
        with r ih1 have "SetFromCtyValues (NewObject origin) (entries m) origin = Inl CtyPanic"
          by simp
        with False True Inr show ?thesis by simp
      next
        case c: True
        with a r ih1 have
          s: "SetFromCtyValues (NewObject origin) (entries m) origin
              = Inr (Object origin (fmmap (build origin) m))"
          by (simp add: foldl_upd_entries)
        from 2(2) [OF True Inr s] True Inr s a c show ?thesis
          by (simp add: upd_pair)
      qed
    qed
  qed
qed

lemma NewValue_spec:
  "NewValue v origin = (if convertible v then Inr (build origin v) else Inl CtyPanic)"
proof (cases "IsObjectType (Type v)")
  case False
  then show ?thesis by (simp add: NewValue_def not_object_convertible not_object_build)
next
  case True
  show ?thesis
  proof (cases "cty_AsValueMap v")
    case (Inl p)
    with True AsValueMap_object_Inl [OF True Inl] show ?thesis by (simp add: NewValue_def)
  next
    case (Inr m)
    note a = AsValueMap_object_Inr [OF True Inr, of origin]
    have r: "snd ` set (entries m) = fmran' m"
      by (auto simp: set_entries fmlookup_ran'_iff image_iff)
    from a r True Inr show ?thesis
      by (simp add: NewValue_def SetFromCtyValues_spec foldl_upd_entries)
  qed
qed

lemma clean_convertible: "clean v \<Longrightarrow> convertible v"
  by (induction v) (auto simp: fmpred_fmmap_all)

lemma toCty_build: "clean v \<Longrightarrow> toCty (build origin v) = v"
proof (induction v)
  case (ObjectVal ms attrs)
  then have "fmmap (\<lambda>w. toCty (build origin w)) attrs = fmmap (\<lambda>w. w) attrs"
    by (intro fmap.map_cong) (auto simp: fmpred_fmmap_all)
  with ObjectVal.prems show ?case
    by (simp add: cty_ObjectVal_def fmap.map_comp comp_def fmap.map_ident)
qed (simp_all add: Raw_NewCtyValue)

lemma null_object_not_convertible:
  "IsObjectType (Type x) \<Longrightarrow> IsNull x \<or> \<not> IsKnown x \<Longrightarrow> Type x \<noteq> cty_Object fmempty \<Longrightarrow>
   \<not> convertible x"
  by (cases x) auto

lemma marked_object_not_convertible:
  "IsObjectType (Type x) \<Longrightarrow> marks x \<noteq> {} \<Longrightarrow> \<not> convertible x"
  by (cases x) auto

lemma Sprintf_SetAt:
  "Sprintf ''path part %s (from %s) contains non-object parts in the path (%v is %T)''
     [ArgString key, ArgPath p, ArgString key, ArgValue (CtyV c)]
   = ''path part '' @ key @ '' (from ['' @ join '' '' p
       @ '']) contains non-object parts in the path ('' @ key @ '' is eval.CtyValue)''"
  by simp

lemma exScalar_CtyV:
  "exScalar = CtyV (CtyValue ''main.tm'' (StringVal {PathMark ''main.tm''} ''hello''))"
  by (simp add: exScalar_def NewCtyValue_def Mark_def)

lemma Append_atomic: "atomic e \<Longrightarrow> Append l (Some e) = DiagnosticList (errs l @ [e])"
  by (cases e) simp_all

lemma foldl_Append_atomic:
  "\<forall>e \<in> set es. atomic e \<Longrightarrow> foldl Append l (map Some es) = DiagnosticList (errs l @ es)"
proof (induction es arbitrary: l)
  case Nil
  then show ?case by simp
next
  case (Cons e es)
  then have "Append l (Some e) = DiagnosticList (errs l @ [e])"
    by (simp add: Append_atomic)
  with Cons show ?case by simp
qed

lemma L_atomic: "\<forall>e \<in> set es. atomic e \<Longrightarrow> L (map Some es) = DiagnosticList es"
  by (simp add: L_def foldl_Append_atomic)

lemma Append_nils: "foldl Append l (replicate n None) = l"
  by (induction n) simp_all

section \<open>The claims\<close>

subsection \<open>C1: \<^verbatim>\<open>SetAt\<close> through a scalar\<close>

text \<open>
  Claim C1, as amended. For every Object and every path, if some key of the path that
  is not its last already maps to a scalar (the keys before it lead to objects),
  then \<^verbatim>\<open>SetAt\<close> returns an error of kind \<^verbatim>\<open>ErrCannotExtendObject\<close>, and the tree after the
  call is the tree before it: no object was created and no key was written. The
  message names the offending key and the Go type of the blocking value,
  \<^verbatim>\<open>eval.CtyValue\<close>, not its contents. What the message prints as the path is left open.
\<close>

theorem SetAt_scalar_on_way:
  assumes "scalarOnWay obj path"
  shows "\<exists>i c printed. 0 < i \<and> i < length path
      \<and> reach (ObjectV obj) (take i path) = Some (CtyV c)
      \<and> SetAt obj path val =
          Inr (Some (Error ErrCannotExtendObject
            (''path part '' @ path ! (i - 1) @ '' (from '' @ printed
              @ '') contains non-object parts in the path ('' @ path ! (i - 1)
              @ '' is eval.CtyValue)'') None), obj)"
proof -
  from assms obtain i where i: "i \<in> {1..<length path}" and
    c: "(case reach (ObjectV obj) (take i path) of Some (CtyV c) \<Rightarrow> True | _ \<Rightarrow> False)"
    unfolding scalarOnWay_def by blast
  from c obtain c' where r: "reach (ObjectV obj) (take i path) = Some (CtyV c')"
    by (auto split: option.splits Value.splits)
  from i have i0: "0 < i" and il: "i < length path" by simp_all
  let ?printed = "''['' @ join '' '' (drop (i - 1) path) @ '']''"
  from SetAt_blocked [OF i0 il r, of val]
  have "SetAt obj path val =
          Inr (Some (Error ErrCannotExtendObject
            (''path part '' @ path ! (i - 1) @ '' (from '' @ ?printed
              @ '') contains non-object parts in the path ('' @ path ! (i - 1)
              @ '' is eval.CtyValue)'') None), obj)"
    by (simp add: E_def Sprintf_SetAt del: Sprintf.simps)
  with i0 il r show ?thesis by blast
qed

text \<open>
  The theorem at the tree \<open>{a = {b = "hello"}}\<close> and the path \<open>a, b, c\<close>, where \<open>b\<close> maps
  to a scalar: an error is returned and the tree is unchanged.
\<close>

theorem SetAt_scalar_on_way_witness:
  "scalarOnWay exTree [''a'', ''b'', ''c'']
   \<and> fst (projr (SetAt exTree [''a'', ''b'', ''c''] exNew)) \<noteq> None
   \<and> snd (projr (SetAt exTree [''a'', ''b'', ''c''] exNew)) = exTree"
proof -
  have "(case reach (ObjectV exTree) (take 2 [''a'', ''b'', ''c'']) of
           Some (CtyV c) \<Rightarrow> True | _ \<Rightarrow> False)"
    by (simp add: exTree_def exInner_def exScalar_CtyV)
  moreover have "(2::nat) \<in> {1..<length [''a'', ''b'', ''c'']}" by simp
  ultimately have s: "scalarOnWay exTree [''a'', ''b'', ''c'']"
    unfolding scalarOnWay_def by blast
  from SetAt_scalar_on_way [OF s, of exNew] s show ?thesis by auto
qed

text \<open>
  Claim C1 as stated says that the message reports the blocking value. At the tree
  \<open>{b = "hello"}\<close> and the path \<open>b, c\<close> the blocking value is the scalar that holds the
  string \<open>hello\<close>: the message has its type, \<^verbatim>\<open>eval.CtyValue\<close>, which the verb \<^verbatim>\<open>%T\<close>
  prints, and does not have \<open>hello\<close>.
\<close>

theorem SetAt_message_counterexample:
  "SetAt exInner [''b'', ''c''] exNew =
     Inr (Some (Error ErrCannotExtendObject
       ''path part b (from [b c]) contains non-object parts in the path (b is eval.CtyValue)''
       None), exInner)
   \<and> fmlookup (Keys exInner) ''b''
       = Some (CtyV (CtyValue ''main.tm'' (StringVal {PathMark ''main.tm''} ''hello'')))
   \<and> \<not> sublist ''hello''
       ''path part b (from [b c]) contains non-object parts in the path (b is eval.CtyValue)''"
proof -
  have "SetAt exInner [''b'', ''c''] exNew =
     Inr (Some (Error ErrCannotExtendObject
       ''path part b (from [b c]) contains non-object parts in the path (b is eval.CtyValue)''
       None), exInner)"
    by (simp add: exInner_def exScalar_CtyV E_def)
  moreover have "fmlookup (Keys exInner) ''b''
       = Some (CtyV (CtyValue ''main.tm'' (StringVal {PathMark ''main.tm''} ''hello'')))"
    by (simp add: exInner_def exScalar_CtyV)
  moreover have "\<not> sublist ''hello''
       ''path part b (from [b c]) contains non-object parts in the path (b is eval.CtyValue)''"
    by code_simp
  ultimately show ?thesis by blast
qed

subsection \<open>C2: \<^verbatim>\<open>SetAt\<close> on an empty object, then \<^verbatim>\<open>GetKeyPath\<close>\<close>

text \<open>
  Claim C2. For every empty Object, fresh from \<^verbatim>\<open>NewObject\<close>, every path that is not
  empty and every value \<open>val\<close>, \<^verbatim>\<open>SetAt\<close> returns \<^verbatim>\<open>nil\<close>, \<^verbatim>\<open>GetKeyPath\<close> with the same path
  on the resulting tree returns \<open>(val, true)\<close>, and every intermediate Object, the one
  reached by the first \<open>i\<close> keys for \<open>0 < i < length path\<close>, has the origin of \<open>val\<close>.
\<close>

theorem SetAt_fresh_GetKeyPath:
  assumes "path \<noteq> []"
  shows "\<exists>obj'. SetAt (NewObject origin) path val = Inr (None, obj')
     \<and> GetKeyPath obj' path = Inr (Some val)
     \<and> (\<forall>i. 0 < i \<and> i < length path \<longrightarrow>
          (\<exists>sub. reach (ObjectV obj') (take i path) = Some (ObjectV sub)
                \<and> Object_origin sub = Origin val))"
proof -
  from SetAt_fresh [OF assms, of origin val] obtain obj' where
    o: "SetAt (NewObject origin) path val = Inr (None, obj')"
       "reach (ObjectV obj') path = Some val"
       "\<forall>i. 0 < i \<and> i < length path \<longrightarrow>
          (\<exists>sub. reach (ObjectV obj') (take i path) = Some (ObjectV sub)
                \<and> Object_origin sub = Origin val)"
    by blast
  from o(2) have "GetKeyPath obj' path = Inr (Some val)"
    by (simp add: GetKeyPath_reach [OF assms])
  with o(1,3) show ?thesis by blast
qed

text \<open>
  The theorem at the scenario of the spec: the path \<open>val, test\<close> on an empty object of
  origin \<open>main.tm\<close>, with a value of origin \<open>other.tm\<close>.
\<close>

theorem SetAt_fresh_GetKeyPath_witness:
  "[''val'', ''test''] \<noteq> []
   \<and> SetAt (NewObject ''main.tm'') [''val'', ''test''] exNew =
       Inr (None, Object ''main.tm''
         (fmupd ''val'' (ObjectV (Object ''other.tm'' (fmupd ''test'' exNew fmempty))) fmempty))
   \<and> GetKeyPath (Object ''main.tm''
         (fmupd ''val'' (ObjectV (Object ''other.tm'' (fmupd ''test'' exNew fmempty))) fmempty))
        [''val'', ''test''] = Inr (Some exNew)"
proof -
  have ne: "[''val'', ''test''] \<noteq> ([] :: string list)" by simp
  have s: "SetAt (NewObject ''main.tm'') [''val'', ''test''] exNew =
       Inr (None, Object ''main.tm''
         (fmupd ''val'' (ObjectV (Object ''other.tm'' (fmupd ''test'' exNew fmempty))) fmempty))"
    by (simp add: NewObject_def Set_def exNew_def NewCtyValue_def Let_def)
  from SetAt_fresh_GetKeyPath [OF ne, of "''main.tm''" exNew] s show ?thesis by auto
qed

subsection \<open>C3: \<^verbatim>\<open>DeleteAt\<close> after \<^verbatim>\<open>SetAt\<close>\<close>

text \<open>
  Claim C3. For every Object and path, after \<^verbatim>\<open>SetAt\<close> has returned \<^verbatim>\<open>nil\<close> (so the path
  is not empty), \<^verbatim>\<open>DeleteAt\<close> with the same path returns \<^verbatim>\<open>nil\<close>, after it \<^verbatim>\<open>GetKeyPath\<close>
  returns not-found, and a second \<^verbatim>\<open>DeleteAt\<close> returns \<^verbatim>\<open>nil\<close> again and leaves the tree as
  it is. More generally, \<^verbatim>\<open>DeleteAt\<close> on a path with an absent key, the last one or one
  before it, returns \<^verbatim>\<open>nil\<close> and leaves the tree as it is.
\<close>

theorem SetAt_DeleteAt_twice:
  "(SetAt obj path val = Inr (None, obj1) \<longrightarrow>
      (\<exists>obj2. DeleteAt obj1 path = Inr (None, obj2)
         \<and> GetKeyPath obj2 path = Inr None
         \<and> DeleteAt obj2 path = Inr (None, obj2)))
   \<and> (keyAbsent obj path \<longrightarrow> DeleteAt obj path = Inr (None, obj))"
  using SetAt_DeleteAt [of obj path val obj1] keyAbsent_DeleteAt [of obj path] by blast

text \<open>
  The theorem at the scenario of the spec: after \<^verbatim>\<open>SetAt\<close> of \<open>val, test\<close>, \<^verbatim>\<open>DeleteAt\<close>
  leaves \<open>{val = {}}\<close>, and so does a second \<^verbatim>\<open>DeleteAt\<close>.
\<close>

theorem SetAt_DeleteAt_twice_witness:
  "SetAt (NewObject ''main.tm'') [''val'', ''test''] exNew =
       Inr (None, Object ''main.tm''
         (fmupd ''val'' (ObjectV (Object ''other.tm'' (fmupd ''test'' exNew fmempty))) fmempty))
   \<and> DeleteAt (Object ''main.tm''
         (fmupd ''val'' (ObjectV (Object ''other.tm'' (fmupd ''test'' exNew fmempty))) fmempty))
        [''val'', ''test'']
      = Inr (None, Object ''main.tm'' (fmupd ''val'' (ObjectV (Object ''other.tm'' fmempty)) fmempty))
   \<and> DeleteAt (Object ''main.tm'' (fmupd ''val'' (ObjectV (Object ''other.tm'' fmempty)) fmempty))
        [''val'', ''test'']
      = Inr (None, Object ''main.tm'' (fmupd ''val'' (ObjectV (Object ''other.tm'' fmempty)) fmempty))"
proof -
  let ?o1 = "Object ''main.tm''
         (fmupd ''val'' (ObjectV (Object ''other.tm'' (fmupd ''test'' exNew fmempty))) fmempty)"
  let ?o2 = "Object ''main.tm'' (fmupd ''val'' (ObjectV (Object ''other.tm'' fmempty)) fmempty)"
  have s: "SetAt (NewObject ''main.tm'') [''val'', ''test''] exNew = Inr (None, ?o1)"
    by (simp add: NewObject_def Set_def exNew_def NewCtyValue_def Let_def)
  have d: "DeleteAt ?o1 [''val'', ''test''] = Inr (None, ?o2)"
    by (simp add: Set_def Delete_def fmdrop_fmupd_same)
  from SetAt_DeleteAt_twice [of "NewObject ''main.tm''" "[''val'', ''test'']" exNew ?o1] s
  obtain obj2 where o: "DeleteAt ?o1 [''val'', ''test''] = Inr (None, obj2)"
    "DeleteAt obj2 [''val'', ''test''] = Inr (None, obj2)" by blast
  from o(1) d have "obj2 = ?o2" by simp
  with o(2) s d show ?thesis by simp
qed

subsection \<open>C4: from a raw value to a tree and back\<close>

text \<open>
  Claim C4, as amended. For every raw value \<open>x\<close> of an object type in which \<open>x\<close> and every
  value nested under the attributes of objects carries no mark of its own, and in which
  every value of an object type among them is a known object that is not null, and for
  every origin, \<^verbatim>\<open>NewValue\<close> returns an Object, and the object value made of its
  \<^verbatim>\<open>AsValueMap\<close> is equal to \<open>x\<close>.
\<close>

theorem NewValue_AsValueMap_roundtrip:
  assumes "IsObjectType (Type x)" and "clean x"
  shows "\<exists>obj. NewValue x origin = Inr (ObjectV obj) \<and> cty_ObjectVal (AsValueMap obj) = x"
proof -
  from assms(2) have n: "NewValue x origin = Inr (build origin x)"
    by (simp add: NewValue_spec clean_convertible)
  from assms obtain ms attrs where x: "x = ObjectVal ms attrs"
    by (cases x) auto
  from toCty_build [OF assms(2), of origin] x
  have "toCty (ObjectV (Object origin (fmmap (build origin) attrs))) = x" by simp
  then have "cty_ObjectVal (AsValueMap (Object origin (fmmap (build origin) attrs))) = x"
    by simp
  with n x show ?thesis by simp
qed

text \<open>The theorem at the object \<open>{val = {test = "test"}, n = 3}\<close>.\<close>

theorem NewValue_AsValueMap_roundtrip_witness:
  "IsObjectType (Type exPlainObject) \<and> clean exPlainObject
   \<and> cty_ObjectVal (AsValueMap (asObject (projr (NewValue exPlainObject ''main.tm''))))
     = exPlainObject"
proof -
  have t: "IsObjectType (Type exPlainObject)" by (simp add: exPlainObject_def)
  have c: "clean exPlainObject" by (auto simp: exPlainObject_def intro!: fmpred_upd)
  from NewValue_AsValueMap_roundtrip [OF t c, of "''main.tm''"] obtain obj where
    o: "NewValue exPlainObject ''main.tm'' = Inr (ObjectV obj)"
       "cty_ObjectVal (AsValueMap obj) = exPlainObject" by blast
  with t c show ?thesis by simp
qed

text \<open>
  Claim C4 as stated asks only for known contents that are not null. The known object
  \<open>{a = "s"}\<close> whose attribute carries the mark \<open>sensitive\<close> comes back without that mark:
  \<^verbatim>\<open>Raw\<close> removes every mark of a scalar, not only the origin.
\<close>

theorem NewValue_roundtrip_marked_counterexample:
  "NewValue exMarkedObject ''main.tm'' =
     Inr (ObjectV (Object ''main.tm'' (fmupd ''a''
       (CtyV (CtyValue ''main.tm'' (StringVal {PathMark ''main.tm'', OtherMark ''sensitive''} ''s'')))
       fmempty)))
   \<and> cty_ObjectVal (AsValueMap (Object ''main.tm'' (fmupd ''a''
       (CtyV (CtyValue ''main.tm'' (StringVal {PathMark ''main.tm'', OtherMark ''sensitive''} ''s'')))
       fmempty)))
     = ObjectVal {} (fmupd ''a'' (StringVal {} ''s'') fmempty)
   \<and> ObjectVal {} (fmupd ''a'' (StringVal {} ''s'') fmempty) \<noteq> exMarkedObject"
proof -
  have "NewValue exMarkedObject ''main.tm'' =
     Inr (ObjectV (Object ''main.tm'' (fmupd ''a''
       (CtyV (CtyValue ''main.tm'' (StringVal {PathMark ''main.tm'', OtherMark ''sensitive''} ''s'')))
       fmempty)))"
    by (auto simp: NewValue_spec exMarkedObject_def exSensitive_def NewCtyValue_def Mark_def
          fmmap_fmupd intro!: fmpred_upd)
  moreover have "cty_ObjectVal (AsValueMap (Object ''main.tm'' (fmupd ''a''
       (CtyV (CtyValue ''main.tm'' (StringVal {PathMark ''main.tm'', OtherMark ''sensitive''} ''s'')))
       fmempty)))
     = ObjectVal {} (fmupd ''a'' (StringVal {} ''s'') fmempty)"
    by (simp add: cty_ObjectVal_def Raw_def Unmark_def fmmap_fmupd)
  moreover have "ObjectVal {} (fmupd ''a'' (StringVal {} ''s'') fmempty) \<noteq> exMarkedObject"
  proof
    assume "ObjectVal {} (fmupd ''a'' (StringVal {} ''s'') fmempty) = exMarkedObject"
    then have "fmlookup (fmupd ''a'' (StringVal {} ''s'') fmempty) ''a''
             = fmlookup (fmupd ''a'' exSensitive fmempty) ''a''"
      by (simp add: exMarkedObject_def)
    then show False by (simp add: exSensitive_def)
  qed
  ultimately show ?thesis by blast
qed

subsection \<open>C5: \<^verbatim>\<open>GetKeyPath\<close>\<close>

text \<open>
  Claim C5. For every Object and every path that is not empty, \<^verbatim>\<open>GetKeyPath\<close> returns
  not-found exactly when some key of the path is absent at its level or some key that
  is not the last maps to a scalar; otherwise it returns \<open>(w, true)\<close> for the value \<open>w\<close>
  reached by consuming the keys one at a time. \<^verbatim>\<open>GetKeyPath\<close> has no write to the tree:
  its model is a function of the tree that returns the result only.
\<close>

theorem GetKeyPath_found_iff:
  assumes "path \<noteq> []"
  shows "(GetKeyPath obj path = Inr None \<longleftrightarrow> keyAbsent obj path \<or> scalarOnWay obj path)
       \<and> (\<not> (keyAbsent obj path \<or> scalarOnWay obj path) \<longrightarrow>
            (\<exists>w. reach (ObjectV obj) path = Some w \<and> GetKeyPath obj path = Inr (Some w)))"
  using GetKeyPath_reach [OF assms, of obj] reach_None_iff [of obj path] by auto

text \<open>The theorem at the tree \<open>{a = {b = "hello"}}\<close> and the path \<open>a, b\<close>.\<close>

theorem GetKeyPath_found_iff_witness:
  "[''a'', ''b''] \<noteq> [] \<and> GetKeyPath exTree [''a'', ''b''] = Inr (Some exScalar)
   \<and> \<not> keyAbsent exTree [''a'', ''b''] \<and> \<not> scalarOnWay exTree [''a'', ''b'']"
proof -
  have ne: "[''a'', ''b''] \<noteq> ([] :: string list)" by simp
  have g: "GetKeyPath exTree [''a'', ''b''] = Inr (Some exScalar)"
    by (simp add: exTree_def exInner_def)
  from GetKeyPath_found_iff [OF ne, of exTree] g show ?thesis by simp
qed

subsection \<open>C6: appending a list to a list\<close>

text \<open>
  Claim C6. Appending a DiagnosticList to a DiagnosticList gives the errors of the
  first followed by the errors of the second, one entry per error and in the order of
  both: lists built by \<^verbatim>\<open>L\<close> from the atomic errors \<open>xs\<close> and \<open>ys\<close> give \<open>xs\<close> followed by
  \<open>ys\<close>, and a list that holds \<open>a, b\<close> with a list that holds \<open>c, d\<close> appended has the
  errors \<open>a, b, c, d\<close>.
\<close>

theorem Append_list_flattens:
  "Errors (Append l (Some (asError l'))) = Errors l @ Errors l'
   \<and> ((\<forall>e \<in> set (xs @ ys). atomic e) \<longrightarrow>
        Errors (Append (L (map Some xs)) (Some (asError (L (map Some ys))))) = xs @ ys)
   \<and> (atomic a \<and> atomic b \<and> atomic c \<and> atomic d \<longrightarrow>
        Errors (Append (L [Some a, Some b]) (Some (asError (L [Some c, Some d])))) = [a, b, c, d])"
proof (intro conjI impI)
  show flat: "Errors (Append l (Some (asError l'))) = Errors l @ Errors l'" for l l'
    by (simp add: Errors_def asError_def)
  show "Errors (Append (L (map Some xs)) (Some (asError (L (map Some ys))))) = xs @ ys"
    if "\<forall>e \<in> set (xs @ ys). atomic e"
  proof -
    from that have "L (map Some xs) = DiagnosticList xs" "L (map Some ys) = DiagnosticList ys"
      by (simp_all add: L_atomic)
    with flat [of "DiagnosticList xs" "DiagnosticList ys"] show ?thesis
      by (simp add: Errors_def)
  qed
  show "Errors (Append (L [Some a, Some b]) (Some (asError (L [Some c, Some d])))) = [a, b, c, d]"
    if "atomic a \<and> atomic b \<and> atomic c \<and> atomic d"
  proof -
    from that have "L (map Some [a, b]) = DiagnosticList [a, b]"
      "L (map Some [c, d]) = DiagnosticList [c, d]"
      by (simp_all add: L_atomic del: list.map)
    with flat [of "DiagnosticList [a, b]" "DiagnosticList [c, d]"] show ?thesis
      by (simp add: Errors_def)
  qed
qed

text \<open>The theorem at the three kinds of the test, with one error of another package.\<close>

theorem Append_list_flattens_witness:
  "atomic (Error ''kind1'' [] None) \<and> atomic (StdError ''two'')
   \<and> Errors (Append (L [Some (Error ''kind1'' [] None), Some (StdError ''two'')])
        (Some (asError (L [Some (Error ''kind2'' [] None), Some (Error ''kind3'' [] None)]))))
     = [Error ''kind1'' [] None, StdError ''two'', Error ''kind2'' [] None, Error ''kind3'' [] None]"
  using Append_list_flattens [of "DiagnosticList []" "DiagnosticList []" "[]" "[]"
      "Error ''kind1'' [] None" "StdError ''two''" "Error ''kind2'' [] None"
      "Error ''kind3'' [] None"]
  by simp

subsection \<open>C7: the empty list\<close>

text \<open>
  Claim C7. A DiagnosticList without errors, the one that \<^verbatim>\<open>L\<close> builds from no argument
  or from any number of \<^verbatim>\<open>nil\<close> arguments, also after any number of \<^verbatim>\<open>Append(nil)\<close>, has no
  errors, \<^verbatim>\<open>AsError\<close> is \<^verbatim>\<open>nil\<close>, and \<^verbatim>\<open>Error\<close> and \<^verbatim>\<open>Detailed\<close> are the empty string. For
  a list that holds an error, \<^verbatim>\<open>AsError\<close> is not \<^verbatim>\<open>nil\<close>: it is the list as one error.
\<close>

theorem empty_list_is_no_error:
  "Errors (foldl Append (L (replicate n None)) (replicate m None)) = []
   \<and> AsError (foldl Append (L (replicate n None)) (replicate m None)) = None
   \<and> ErrorString msg sep (foldl Append (L (replicate n None)) (replicate m None)) = []
   \<and> Detailed msg (foldl Append (L (replicate n None)) (replicate m None)) = []
   \<and> AsError (L []) = None \<and> ErrorString msg sep (L []) = [] \<and> Detailed msg (L []) = []
   \<and> (Errors l \<noteq> [] \<longrightarrow> AsError l = Some (asError l))"
proof -
  have "L (replicate n None) = DiagnosticList []"
    by (simp add: L_def Append_nils)
  then have e: "foldl Append (L (replicate n None)) (replicate m None) = DiagnosticList []"
    by (simp add: Append_nils)
  have z: "L [] = DiagnosticList []"
    by (simp add: L_def)
  show ?thesis
    unfolding e z by (simp add: Errors_def AsError_def ErrorString_def Detailed_def)
qed

text \<open>
  The theorem at the test: \<^verbatim>\<open>L(nil, nil)\<close> with \<^verbatim>\<open>Append(nil)\<close>, and a list with one error.
\<close>

theorem empty_list_is_no_error_witness:
  "Errors (L [Some (StdError ''one'')]) \<noteq> []
   \<and> AsError (L [Some (StdError ''one'')]) = Some (ListError [StdError ''one''])
   \<and> AsError (foldl Append (L [None, None]) [None]) = None"
  using empty_list_is_no_error [of 2 1 "\<lambda>e. []" "[]" "L [Some (StdError ''one'')]"]
  by (simp add: L_def Errors_def asError_def numeral_2_eq_2)

subsection \<open>C8: \<^verbatim>\<open>Raw\<close> of a tagged value\<close>

text \<open>
  Claim C8, as amended. For every raw value \<open>v\<close> and origin, \<^verbatim>\<open>Raw\<close> of \<^verbatim>\<open>NewCtyValue\<close> is
  \<open>v\<close> without any mark of its own; it is equal to \<open>v\<close> when \<open>v\<close> carried no mark before
  it was tagged. \<^verbatim>\<open>Raw\<close> is total: on a value that was never tagged it returns the value
  without its own marks, which is the value itself when it is unmarked.
\<close>

theorem Raw_NewCtyValue_unmarked:
  "Raw (NewCtyValue v origin) = WithMarks {} v
   \<and> (marks v = {} \<longrightarrow> Raw (NewCtyValue v origin) = v)
   \<and> Raw (CtyValue origin v) = WithMarks {} v
   \<and> (marks v = {} \<longrightarrow> Raw (CtyValue origin v) = v)"
proof -
  have 1: "Raw (NewCtyValue v origin) = WithMarks {} v"
    by (rule Raw_NewCtyValue)
  have 2: "Raw (CtyValue origin v) = WithMarks {} v"
    by (simp add: Raw_def Unmark_def)
  from 1 2 show ?thesis by (simp add: WithMarks_same)
qed

text \<open>The theorem at the unmarked string \<open>test\<close>.\<close>

theorem Raw_NewCtyValue_unmarked_witness:
  "marks (StringVal {} ''test'') = {}
   \<and> Raw (NewCtyValue (StringVal {} ''test'') ''main.tm'') = StringVal {} ''test''
   \<and> Raw (CtyValue ''main.tm'' (StringVal {} ''test'')) = StringVal {} ''test''"
  using Raw_NewCtyValue_unmarked [of "StringVal {} ''test''" "''main.tm''"] by simp

text \<open>
  Claim C8 as stated holds for every raw value. A string that arrives with the mark
  \<open>sensitive\<close> does not come back: \<^verbatim>\<open>Unmark\<close> removes that mark with the origin.
\<close>

theorem Raw_NewCtyValue_marked_counterexample:
  "Raw (NewCtyValue exSensitive ''main.tm'') = StringVal {} ''s''
   \<and> Raw (NewCtyValue exSensitive ''main.tm'') \<noteq> exSensitive"
  by (simp add: exSensitive_def Raw_NewCtyValue)

subsection \<open>C9: \<^verbatim>\<open>SetFrom\<close>\<close>

text \<open>
  Claim C9. For every Object and every mapping of keys to Values, given as the list of
  its entries in the order in which the loop visits them, with distinct keys:
  if some key of the mapping already exists in the Object, \<^verbatim>\<open>SetFrom\<close> panics with the
  error that names such a key; if no key of the mapping exists in the Object, it returns
  the Object, with its origin and with every entry of the mapping added to its keys.
\<close>

theorem SetFrom_panics_or_inserts:
  assumes "distinct (map fst vals)"
  shows "((\<exists>k \<in> fst ` set vals. fmlookup (Keys obj) k \<noteq> None) \<longrightarrow>
            (\<exists>k \<in> fst ` set vals. fmlookup (Keys obj) k \<noteq> None \<and>
               SetFrom obj vals =
                 Inl (ErrorPanic (E [] ''SetFrom failed: object has key %s'' [ArgString k]))))
       \<and> ((\<forall>k \<in> fst ` set vals. fmlookup (Keys obj) k = None) \<longrightarrow>
            SetFrom obj vals =
              Inr (Object (Object_origin obj) (Keys obj ++\<^sub>f fmap_of_list vals)))"
proof (intro conjI impI)
  assume "\<exists>k \<in> fst ` set vals. fmlookup (Keys obj) k \<noteq> None"
  then show "\<exists>k \<in> fst ` set vals. fmlookup (Keys obj) k \<noteq> None \<and>
      SetFrom obj vals =
        Inl (ErrorPanic (E [] ''SetFrom failed: object has key %s'' [ArgString k]))"
    by (rule SetFrom_collision [OF assms])
next
  assume "\<forall>k \<in> fst ` set vals. fmlookup (Keys obj) k = None"
  then show "SetFrom obj vals =
      Inr (Object (Object_origin obj) (Keys obj ++\<^sub>f fmap_of_list vals))"
    by (rule SetFrom_fresh [OF assms])
qed

text \<open>
  The theorem at the entries \<open>x, a\<close>: on \<open>{a = \<dots>}\<close> the call panics, on \<open>{b = \<dots>}\<close> both
  entries are inserted.
\<close>

theorem SetFrom_panics_or_inserts_witness:
  "distinct (map fst [(''x'', exNew), (''a'', exScalar)])
   \<and> SetFrom exTree [(''x'', exNew), (''a'', exScalar)] =
       Inl (ErrorPanic (Error [] ''SetFrom failed: object has key a'' None))
   \<and> SetFrom exInner [(''x'', exNew), (''a'', exScalar)] =
       Inr (Object ''main.tm''
         (fmupd ''a'' exScalar (fmupd ''x'' exNew (fmupd ''b'' exScalar fmempty))))"
proof -
  have d: "distinct (map fst [(''x'', exNew), (''a'', exScalar)])" by simp
  have 1: "SetFrom exTree [(''x'', exNew), (''a'', exScalar)] =
       Inl (ErrorPanic (Error [] ''SetFrom failed: object has key a'' None))"
    by (simp add: exTree_def Set_def E_def)
  have 2: "SetFrom exInner [(''x'', exNew), (''a'', exScalar)] =
       Inr (Object ''main.tm''
         (fmupd ''a'' exScalar (fmupd ''x'' exNew (fmupd ''b'' exScalar fmempty))))"
    by (simp add: exInner_def Set_def)
  from SetFrom_panics_or_inserts [OF d, of exTree] d 1 2 show ?thesis by simp
qed

subsection \<open>C10: the raw values on which \<^verbatim>\<open>NewValue\<close> panics\<close>

text \<open>
  Claim C10, as amended. \<^verbatim>\<open>NewValue\<close> panics on every raw value of an object type that
  is null or unknown and whose type has an attribute, and on every raw value of an
  object type that carries a mark. It returns a Value exactly for the raw values in
  which every value of an object type, the value itself or one nested under the
  attributes of objects, is unmarked and is a known object that is not null, or is a
  null or unknown value of the object type without attributes; \<^verbatim>\<open>SetFromCtyValues\<close>
  returns exactly when every value of the mapping is such a value.
\<close>

theorem NewValue_panics_iff:
  "(IsObjectType (Type x) \<and> (IsNull x \<or> \<not> IsKnown x) \<and> Type x \<noteq> cty_Object fmempty \<longrightarrow>
      NewValue x origin = Inl CtyPanic)
   \<and> (IsObjectType (Type x) \<and> marks x \<noteq> {} \<longrightarrow> NewValue x origin = Inl CtyPanic)
   \<and> ((\<exists>y. NewValue x origin = Inr y) \<longleftrightarrow> convertible x)
   \<and> ((\<exists>y. SetFromCtyValues obj es origin = Inr y) \<longleftrightarrow> (\<forall>v \<in> snd ` set es. convertible v))"
  using null_object_not_convertible [of x] marked_object_not_convertible [of x]
  by (auto simp: NewValue_spec SetFromCtyValues_spec)

text \<open>The theorem at the null value of the object type with the attribute \<open>a\<close>.\<close>

theorem NewValue_panics_iff_witness:
  "IsObjectType (Type exNullObject) \<and> IsNull exNullObject
   \<and> Type exNullObject \<noteq> cty_Object fmempty
   \<and> NewValue exNullObject ''main.tm'' = Inl CtyPanic
   \<and> SetFromCtyValues (NewObject ''main.tm'') [(''k'', exNullObject)] ''main.tm'' = Inl CtyPanic"
proof -
  have t: "IsObjectType (Type exNullObject)" "IsNull exNullObject"
    by (simp_all add: exNullObject_def)
  have ne: "Type exNullObject \<noteq> cty_Object fmempty"
  proof
    assume "Type exNullObject = cty_Object fmempty"
    then have "fmlookup (fmupd ''a'' cty_String fmempty) ''a'' = fmlookup fmempty ''a''"
      by (simp add: exNullObject_def)
    then show False by simp
  qed
  from NewValue_panics_iff
    [of exNullObject "''main.tm''" "NewObject ''main.tm''" "[(''k'', exNullObject)]"] t ne
  have n: "NewValue exNullObject ''main.tm'' = Inl CtyPanic"
    and s: "(\<exists>y. SetFromCtyValues (NewObject ''main.tm'') [(''k'', exNullObject)] ''main.tm'' = Inr y)
          \<longleftrightarrow> convertible exNullObject" by simp_all
  from n have "\<not> convertible exNullObject" by (simp add: NewValue_spec split: if_splits)
  with s have
    "SetFromCtyValues (NewObject ''main.tm'') [(''k'', exNullObject)] ''main.tm'' = Inl CtyPanic"
    by (simp add: SetFromCtyValues_spec)
  with t ne n show ?thesis by simp
qed

text \<open>
  Claim C10 as stated says that \<^verbatim>\<open>NewValue\<close> panics on every null value of an object
  type. On the null value of the object type without attributes \<^verbatim>\<open>AsValueMap\<close> returns
  the nil map before it looks at the value, and \<^verbatim>\<open>NewValue\<close> returns an empty Object.
\<close>

theorem NewValue_null_empty_object_counterexample:
  "IsObjectType (Type exNullEmptyObject) \<and> IsNull exNullEmptyObject
   \<and> NewValue exNullEmptyObject ''main.tm'' = Inr (ObjectV (Object ''main.tm'' fmempty))"
  by (simp add: exNullEmptyObject_def NewValue_spec)

end
